theory Spec2Isabelle
  imports Complex_Main "HOL-Library.Word" "HOL-Library.Stream"
begin

unbundle bit_operations_syntax

section \<open>JavaScript values used by \<open>plugins/header.js\<close>\<close>

text \<open>
  A JavaScript string is a sequence of 16-bit code units. String literals of the source
  that are plain ASCII are written with \<open>lit\<close>.
\<close>

type_synonym jschar = "16 word"
type_synonym jsstring = "jschar list"

definition lit :: "string \<Rightarrow> jsstring" where
  "lit s = map of_char s"

text \<open>
  The only numbers the transformer stores in \<open>keyIndex\<close> are array indices and the
  result of a remainder by zero; \<open>Fin k\<close> is the number \<open>k\<close>, \<open>NaN\<close> is JavaScript's
  not-a-number.
\<close>

datatype number = Fin nat | NaN

text \<open>\<open>a + b\<close> and \<open>a % b\<close> on such numbers: a \<open>NaN\<close> operand or a zero divisor gives \<open>NaN\<close>.\<close>

fun num_add :: "number \<Rightarrow> number \<Rightarrow> number" where
  "num_add (Fin a) (Fin b) = Fin (a + b)"
| "num_add _ _ = NaN"

fun num_rem :: "number \<Rightarrow> number \<Rightarrow> number" where
  "num_rem (Fin a) (Fin b) = (if b = 0 then NaN else Fin (a mod b))"
| "num_rem _ _ = NaN"

text \<open>\<open>xs[i]\<close>: reading an array at a number. Outside the array, and at \<open>NaN\<close>, the
  result is \<open>undefined\<close> (here \<open>None\<close>); nothing is raised.\<close>

fun Array_get :: "'a list \<Rightarrow> number \<Rightarrow> 'a option" where
  "Array_get xs (Fin i) = (if i < length xs then Some (xs ! i) else None)"
| "Array_get xs NaN = None"

subsection \<open>Number to string\<close>

definition digitChar :: "nat \<Rightarrow> jschar" where
  "digitChar d = (if d < 10 then 0x30 + of_nat d else 0x61 + of_nat (d - 10))"

function radixDigits :: "nat \<Rightarrow> nat \<Rightarrow> jsstring" where
  "radixDigits b n =
     (if b < 2 \<or> n < b then [digitChar n]
      else radixDigits b (n div b) @ [digitChar (n mod b)])"
  by pat_completeness auto
termination
  by (relation "measure (\<lambda>(b, n). n)") auto

declare radixDigits.simps [simp del]

text \<open>
  \<open>v.toString(radix)\<close>, and \<open>v\<close> in a template literal, for a Number \<open>v\<close> that is an integer
  with \<open>|v| \<le> 2^53\<close>: a minus sign, then the digits. Every such integer is a Number, and
  its text is its digits. Beyond \<open>2^53\<close> the text of a Number is not its digit expansion
  (rounded digits, and the exponent form from \<open>10^21\<close> on); the function is used below that
  bound only: on 32-bit integers in \<open>generateSessionId\<close>, on array indices, and on the
  values of \<open>Date.now()\<close>, which stay below \<open>8.64 * 10^15\<close>.
\<close>

definition Number_toString :: "nat \<Rightarrow> int \<Rightarrow> jsstring" where
  "Number_toString radix v =
     (if v < 0 then 0x2D # radixDigits radix (nat (- v)) else radixDigits radix (nat v))"

text \<open>A number inside a template literal: \<open>${this.keyIndex}\<close>.\<close>

fun number_text :: "number \<Rightarrow> jsstring" where
  "number_text (Fin k) = Number_toString 10 (int k)"
| "number_text NaN = lit ''NaN''"

subsection \<open>\<open>Math.random() * 16 | 0\<close>\<close>

text \<open>
  \<open>Math.random()\<close> returns a double \<open>x\<close> with \<open>0 \<le> x < 1\<close>; the product with 16 is exact
  in binary floating point, so the double is modelled by the real number it denotes.
  \<open>| 0\<close> is the conversion to a signed 32-bit integer: truncate towards zero, then wrap.
\<close>

definition ToInt32 :: "real \<Rightarrow> int" where
  "ToInt32 x =
     (let n = (if x < 0 then - \<lfloor>- x\<rfloor> else \<lfloor>x\<rfloor>);
          m = n mod 2 ^ 32
      in if 2 ^ 31 \<le> m then m - 2 ^ 32 else m)"

section \<open>\<open>generateSessionId\<close> (lines 47 to 53)\<close>

text \<open>
  The callback of \<open>replace\<close>, given the matched character \<open>c\<close> and the value \<open>x\<close> that
  its call of \<open>Math.random()\<close> returns.
\<close>

definition replacer :: "jschar \<Rightarrow> real \<Rightarrow> jsstring" where
  "replacer c x =
     (let r = ToInt32 (x * 16);
          v = (if c = of_char CHR ''x'' then r else (r AND 0x3) OR 0x8)
      in Number_toString 16 v)"

text \<open>
  \<open>s.replace(/[xy]/g, replacer)\<close>: every \<open>x\<close> and \<open>y\<close>, from left to right, is replaced by
  what the callback returns; each callback takes the next value of the random source.
\<close>

fun replace_xy :: "jsstring \<Rightarrow> real stream \<Rightarrow> jsstring" where
  "replace_xy [] rnd = []"
| "replace_xy (c # cs) rnd =
     (if c = of_char CHR ''x'' \<or> c = of_char CHR ''y''
      then replacer c (shd rnd) @ replace_xy cs (stl rnd)
      else c # replace_xy cs rnd)"

definition generateSessionId :: "real stream \<Rightarrow> jsstring" where
  "generateSessionId rnd = replace_xy (lit ''xxxxxxxx-xxxx-4xxx-yxxx-xxxxxxxxxxxx'') rnd"

section \<open>Parsing \<open>provider.apiKey\<close> (line 11)\<close>

text \<open>
  The white space that \<open>String.prototype.trim\<close> removes: the ECMAScript \<open>WhiteSpace\<close>
  and \<open>LineTerminator\<close> code points (tab, line feed, vertical tab, form feed, carriage
  return, space, no-break space, the Unicode space separators, line and paragraph
  separator, and the byte order mark).
\<close>

definition isWhiteSpace :: "jschar \<Rightarrow> bool" where
  "isWhiteSpace c \<longleftrightarrow>
     c \<in> {0x9, 0xA, 0xB, 0xC, 0xD, 0x20, 0xA0, 0x1680, 0x2028, 0x2029, 0x202F, 0x205F,
          0x3000, 0xFEFF}
     \<or> (0x2000 \<le> c \<and> c \<le> 0x200A)"

text \<open>\<open>k.trim()\<close>\<close>

definition String_trim :: "jsstring \<Rightarrow> jsstring" where
  "String_trim k = rev (dropWhile isWhiteSpace (rev (dropWhile isWhiteSpace k)))"

text \<open>
  \<open>s.split(sep)\<close> for a separator of one code unit: the pieces between the separators,
  empty pieces included; the empty string splits into one empty piece.
\<close>

fun String_split :: "jschar \<Rightarrow> jsstring \<Rightarrow> jsstring list" where
  "String_split sep [] = [[]]"
| "String_split sep (c # cs) =
     (if c = sep then [] # String_split sep cs
      else (case String_split sep cs of
              [] \<Rightarrow> [[c]]
            | piece # pieces \<Rightarrow> (c # piece) # pieces))"

text \<open>A string is truthy when it is not empty: \<open>filter(k => k)\<close> and \<open>!apiKey\<close> test this.\<close>

definition truthy :: "jsstring \<Rightarrow> bool" where
  "truthy k \<longleftrightarrow> k \<noteq> []"

text \<open>\<open>provider.apiKey.split(',').map(k => k.trim()).filter(k => k)\<close>\<close>

definition parseApiKeys :: "jsstring \<Rightarrow> jsstring list" where
  "parseApiKeys s = filter truthy (map String_trim (String_split (of_char CHR '','') s))"

section \<open>\<open>generateSignature\<close> (lines 38 to 45)\<close>

text \<open>
  Node's \<open>crypto\<close> module is not part of the repository. It is a parameter:
  \<open>crypto algorithm key data inputEncoding outputEncoding\<close> stands for
  \<open>crypto.createHmac(algorithm, key).update(data, inputEncoding).digest(outputEncoding)\<close>.
  With \<open>'sha256'\<close>, \<open>'utf8'\<close> and \<open>'hex'\<close> that is the HMAC-SHA256 under \<open>key\<close> of the UTF-8
  bytes of \<open>data\<close>, in lowercase hexadecimal digits.
\<close>

type_synonym crypto = "jsstring \<Rightarrow> jsstring \<Rightarrow> jsstring \<Rightarrow> jsstring \<Rightarrow> jsstring \<Rightarrow> jsstring"

text \<open>
  The key is a string, or \<open>undefined\<close> (\<open>None\<close>); \<open>!apiKey\<close> holds of \<open>undefined\<close> and of the
  empty string. The timestamp is the integer that \<open>Date.now()\<close> returned, of magnitude
  at most \<open>2^53\<close>, where \<open>Number_toString\<close> is its text in the template literal; a
  statement about the message of another timestamp carries that bound. The result
  \<open>None\<close> is \<open>null\<close>.
\<close>

definition generateSignature ::
  "crypto \<Rightarrow> jsstring \<Rightarrow> jsstring \<Rightarrow> int \<Rightarrow> jsstring option \<Rightarrow> jsstring option" where
  "generateSignature crypto userAgent sessionId timestamp apiKey =
     (case apiKey of
        None \<Rightarrow> None
      | Some k \<Rightarrow>
          if \<not> truthy k then None
          else
            (let message = userAgent @ lit '':'' @ sessionId @ lit '':'' @ Number_toString 10 timestamp
             in Some (crypto (lit ''sha256'') k message (lit ''utf8'') (lit ''hex''))))"

text \<open>
  A stand-in for the module where a call is evaluated on given values; the theorems
  hold for every \<open>crypto\<close>.
\<close>

definition echo_crypto :: crypto where
  "echo_crypto algorithm key data inputEncoding outputEncoding = key @ data"

section \<open>The transformer\<close>

text \<open>
  The injected logger is known by what its \<open>debug\<close> method does with a message: it
  returns, or it throws.
\<close>

datatype debug_outcome = Returns | Throws

datatype error = LoggerError

text \<open>
  The fields of a \<open>HeaderTransformer\<close> (lines 4 to 6) and the \<open>logger\<close> that the host may
  set on it (\<open>None\<close> when it did not).
\<close>

record transformer =
  name :: jsstring
  keyIndex :: number
  apiKeys :: "jsstring list"
  logger :: "(jsstring \<Rightarrow> debug_outcome) option"

definition HeaderTransformer :: "(jsstring \<Rightarrow> debug_outcome) option \<Rightarrow> transformer" where
  "HeaderTransformer lg = \<lparr>name = lit ''header'', keyIndex = Fin 0, apiKeys = [], logger = lg\<rparr>"

text \<open>The provider descriptor: \<open>apiKey\<close> is a string, or absent (\<open>None\<close>).\<close>

record provider =
  apiKey :: "jsstring option"

text \<open>The value returned by \<open>transformRequestIn\<close> (lines 24 to 35).\<close>

record headers =
  user_agent :: jsstring
  session_id :: jsstring
  conversation_id :: jsstring
  x_iflow_timestamp :: jsstring
  x_iflow_signature :: "jsstring option"

record config =
  headers :: headers

record 'req transformed =
  body :: 'req
  config :: config

subsection \<open>\<open>transformRequestIn\<close> (lines 8 to 36)\<close>

text \<open>Lines 10 to 12: the pool is parsed when it is empty and \<open>provider.apiKey\<close> is truthy.\<close>

definition initApiKeys :: "transformer \<Rightarrow> provider \<Rightarrow> transformer" where
  "initApiKeys this provider =
     (case apiKey provider of
        None \<Rightarrow> this
      | Some s \<Rightarrow>
          if length (apiKeys this) = 0 \<and> truthy s then this\<lparr>apiKeys := parseApiKeys s\<rparr>
          else this)"

text \<open>Line 15: \<open>this.keyIndex = (this.keyIndex + 1) % this.apiKeys.length\<close>.\<close>

definition advance :: "transformer \<Rightarrow> transformer" where
  "advance this =
     this\<lparr>keyIndex := num_rem (num_add (keyIndex this) (Fin 1)) (Fin (length (apiKeys this)))\<rparr>"

text \<open>
  Line 22: the message given to \<open>debug\<close>, from the cursor as line 15 left it and the
  selected key. \<open>currentApiKey?.substring(0, 8)\<close> is \<open>undefined\<close> when no key was selected,
  and the template prints it so.
\<close>

definition logMessage :: "number \<Rightarrow> jsstring option \<Rightarrow> jsstring" where
  "logMessage idx key =
     [0x5F53, 0x524D, 0x8BF7, 0x6C42, 0x4F7F, 0x7528, 0x5BC6, 0x94A5, 0x7D22, 0x5F15]
     @ lit '': '' @ number_text idx
     @ lit '', '' @ [0x5BC6, 0x94A5] @ lit '': ''
     @ (case key of None \<Rightarrow> lit ''undefined'' | Some k \<Rightarrow> take 8 k)
     @ lit ''...''"

text \<open>
  The call, given the values \<open>rnd\<close> that \<open>Math.random()\<close> will return and the value \<open>now\<close>
  of \<open>Date.now()\<close>. The provider is an object and a logger, when there is one, has a
  \<open>debug\<close> method, as the host passes them. The function is \<open>async\<close>: what it throws
  rejects the promise it returns. The model returns the transformer as the call leaves
  it, and either the returned object or the exception that \<open>debug\<close> threw; the fields
  were already written when line 22 runs.
\<close>

definition transformRequestIn ::
  "crypto \<Rightarrow> real stream \<Rightarrow> int \<Rightarrow> transformer \<Rightarrow> 'req \<Rightarrow> provider
     \<Rightarrow> (error + 'req transformed) \<times> transformer" where
  "transformRequestIn crypto rnd now this request provider =
     (let this1 = initApiKeys this provider;
          currentApiKey = Array_get (apiKeys this1) (keyIndex this1);
          this2 = advance this1;
          userAgent = lit ''iFlow-Cli'';
          sessionId = generateSessionId rnd;
          timestamp = now;
          signature = generateSignature crypto userAgent sessionId timestamp currentApiKey;
          result = \<lparr>body = request,
                    config = \<lparr>headers = \<lparr>user_agent = userAgent,
                                          session_id = sessionId,
                                          conversation_id = [],
                                          x_iflow_timestamp = Number_toString 10 timestamp,
                                          x_iflow_signature = signature\<rparr>\<rparr>\<rparr>
      in case logger this2 of
           None \<Rightarrow> (Inr result, this2)
         | Some debug \<Rightarrow>
             (case debug (logMessage (keyIndex this2) currentApiKey) of
                Throws \<Rightarrow> (Inl LoggerError, this2)
              | Returns \<Rightarrow> (Inr result, this2)))"

text \<open>The key that a call on \<open>this\<close> with \<open>provider\<close> selects on line 14.\<close>

definition currentApiKey :: "transformer \<Rightarrow> provider \<Rightarrow> jsstring option" where
  "currentApiKey this provider =
     (let this1 = initApiKeys this provider in Array_get (apiKeys this1) (keyIndex this1))"

subsection \<open>Sequences of calls\<close>

text \<open>One call of the host: the request, the provider, and what the environment answers.\<close>

record 'req call =
  call_request :: 'req
  call_provider :: provider
  call_random :: "real stream"
  call_now :: int

definition step :: "crypto \<Rightarrow> transformer \<Rightarrow> 'req call \<Rightarrow> (error + 'req transformed) \<times> transformer" where
  "step crypto t c =
     transformRequestIn crypto (call_random c) (call_now c) t (call_request c) (call_provider c)"

text \<open>The transformer after the calls \<open>cs\<close>, made one after the other.\<close>

fun run :: "crypto \<Rightarrow> transformer \<Rightarrow> 'req call list \<Rightarrow> transformer" where
  "run crypto t [] = t"
| "run crypto t (c # cs) = run crypto (snd (step crypto t c)) cs"

text \<open>
  Call number \<open>i\<close> (counted from 0) of the calls \<open>cs\<close> made on \<open>t\<close>: the transformer it
  finds, the key it selects, what it returns, and the transformer it leaves.
\<close>

definition before :: "crypto \<Rightarrow> transformer \<Rightarrow> 'req call list \<Rightarrow> nat \<Rightarrow> transformer" where
  "before crypto t cs i = run crypto t (take i cs)"

definition selected :: "crypto \<Rightarrow> transformer \<Rightarrow> 'req call list \<Rightarrow> nat \<Rightarrow> jsstring option" where
  "selected crypto t cs i = currentApiKey (before crypto t cs i) (call_provider (cs ! i))"

definition outcome :: "crypto \<Rightarrow> transformer \<Rightarrow> 'req call list \<Rightarrow> nat \<Rightarrow> error + 'req transformed" where
  "outcome crypto t cs i = fst (step crypto (before crypto t cs i) (cs ! i))"

definition after :: "crypto \<Rightarrow> transformer \<Rightarrow> 'req call list \<Rightarrow> nat \<Rightarrow> transformer" where
  "after crypto t cs i = snd (step crypto (before crypto t cs i) (cs ! i))"

section \<open>What the specification says of the results\<close>

subsection \<open>The textual layout of a version 4 UUID\<close>

text \<open>
  36 characters; a hyphen at the positions 9, 14, 19 and 24 (counted from 1) and a
  lowercase hexadecimal digit everywhere else; the version digit (position 15) is \<open>4\<close>
  and the variant digit (position 20) is one of \<open>8\<close>, \<open>9\<close>, \<open>a\<close>, \<open>b\<close>.
\<close>

definition isHexDigit :: "jschar \<Rightarrow> bool" where
  "isHexDigit c \<longleftrightarrow> (0x30 \<le> c \<and> c \<le> 0x39) \<or> (0x61 \<le> c \<and> c \<le> 0x66)"

definition uuid_v4_layout :: "jsstring \<Rightarrow> bool" where
  "uuid_v4_layout s \<longleftrightarrow>
     length s = 36 \<and>
     (\<forall>i \<in> {0..<36}.
        if Suc i \<in> {9, 14, 19, 24} then s ! i = of_char CHR ''-'' else isHexDigit (s ! i)) \<and>
     s ! 14 = of_char CHR ''4'' \<and>
     s ! 19 \<in> {of_char CHR ''8'', of_char CHR ''9'', of_char CHR ''a'', of_char CHR ''b''}"

subsection \<open>The credential pool of a configuration string\<close>

text \<open>
  The pieces of a string between its commas, in order, read off in one pass: \<open>acc\<close> holds
  the characters of the current piece, last first.
\<close>

fun scan_segments :: "jsstring \<Rightarrow> jsstring \<Rightarrow> jsstring list" where
  "scan_segments acc [] = [rev acc]"
| "scan_segments acc (c # cs) =
     (if c = of_char CHR '','' then rev acc # scan_segments [] cs else scan_segments (c # acc) cs)"

definition comma_segments :: "jsstring \<Rightarrow> jsstring list" where
  "comma_segments s = scan_segments [] s"

text \<open>A piece without the white space at its two ends.\<close>

fun strip_left :: "jsstring \<Rightarrow> jsstring" where
  "strip_left [] = []"
| "strip_left (c # cs) = (if isWhiteSpace c then strip_left cs else c # cs)"

fun strip_right :: "jsstring \<Rightarrow> jsstring" where
  "strip_right [] = []"
| "strip_right (c # cs) =
     (let r = strip_right cs in if isWhiteSpace c \<and> r = [] then [] else c # r)"

definition strip :: "jsstring \<Rightarrow> jsstring" where
  "strip s = strip_right (strip_left s)"

text \<open>The pool of a configuration string: its pieces, stripped, the empty ones left out.\<close>

definition spec_pool :: "jsstring \<Rightarrow> jsstring list" where
  "spec_pool s = filter (\<lambda>k. k \<noteq> []) (map strip (comma_segments s))"

section \<open>Evaluation of literals\<close>

lemma lit_simps: "lit [] = []" "lit (c # cs) = of_char c # lit cs"
  by (simp_all add: lit_def)

text \<open>The definitions to unfold when a call is evaluated on given values.\<close>

lemmas call_simps =
  outcome_def selected_def after_def before_def step_def transformRequestIn_def currentApiKey_def
  initApiKeys_def advance_def HeaderTransformer_def Let_def

lemmas value_simps =
  generateSignature_def echo_crypto_def parseApiKeys_def String_trim_def truthy_def
  isWhiteSpace_def generateSessionId_def replacer_def ToInt32_def Number_toString_def
  radixDigits.simps digitChar_def logMessage_def lit_simps

section \<open>The session identifier\<close>

text \<open>What \<open>replace\<close> may put in the place of the template character \<open>c\<close>.\<close>

definition slot :: "jschar \<Rightarrow> jschar \<Rightarrow> bool" where
  "slot c d =
     (if c = of_char CHR ''x'' then isHexDigit d
      else if c = of_char CHR ''y'' then d \<in> {0x38, 0x39, 0x61, 0x62}
      else d = c)"

lemma ToInt32_unit:
  assumes "0 \<le> x" "x < 1"
  shows "ToInt32 (x * 16) = \<lfloor>x * 16\<rfloor>" "0 \<le> \<lfloor>x * 16\<rfloor>" "\<lfloor>x * 16\<rfloor> < 16"
proof -
  show f0: "0 \<le> \<lfloor>x * 16\<rfloor>" using assms by simp
  show f1: "\<lfloor>x * 16\<rfloor> < 16" using assms by (simp add: floor_less_iff)
  have "\<lfloor>x * 16\<rfloor> mod 2 ^ 32 = \<lfloor>x * 16\<rfloor>" using f0 f1 by simp
  thus "ToInt32 (x * 16) = \<lfloor>x * 16\<rfloor>" using assms f0 f1 by (simp add: ToInt32_def Let_def)
qed

lemma radixDigits_16_digit: "n < 16 \<Longrightarrow> radixDigits 16 n = [digitChar n]"
  by (simp add: radixDigits.simps)

lemma nibble_cases: "n < 16 \<Longrightarrow> n \<in> {0,1,2,3,4,5,6,7,8,9,10,11,12,13,14,15::nat}"
  by (simp only: insert_iff empty_iff) presburger

lemma isHexDigit_digitChar: "n < 16 \<Longrightarrow> isHexDigit (digitChar n)"
  using nibble_cases[of n] by (auto simp: isHexDigit_def digitChar_def)

lemma variant_nibble: "n < 16 \<Longrightarrow> (int n AND 3) OR 8 \<in> {8, 9, 10, 11}"
  using nibble_cases[of n] by auto

lemma replacer_x:
  assumes "0 \<le> d" "d < 1"
  shows "\<exists>n<16. replacer (of_char CHR ''x'') d = [digitChar n]"
proof -
  let ?r = "\<lfloor>d * 16\<rfloor>"
  have "nat ?r < 16" using assms by (simp add: floor_less_iff nat_less_iff)
  moreover have "replacer (of_char CHR ''x'') d = [digitChar (nat ?r)]"
    using ToInt32_unit[OF assms] \<open>nat ?r < 16\<close>
    by (simp add: replacer_def Number_toString_def radixDigits_16_digit)
  ultimately show ?thesis by blast
qed

lemma replacer_y:
  assumes "0 \<le> d" "d < 1"
  shows "\<exists>n\<in>{8, 9, 10, 11}. replacer (of_char CHR ''y'') d = [digitChar n]"
proof -
  let ?n = "nat \<lfloor>d * 16\<rfloor>"
  let ?v = "(int ?n AND 3) OR 8"
  have n: "?n < 16" "int ?n = \<lfloor>d * 16\<rfloor>"
    using assms by (simp_all add: floor_less_iff nat_less_iff)
  have v: "?v \<in> {8, 9, 10, 11}" using n(1) by (rule variant_nibble)
  then have "nat ?v \<in> {8, 9, 10, 11}" by auto
  moreover have "replacer (of_char CHR ''y'') d = [digitChar (nat ?v)]"
    using ToInt32_unit(1)[OF assms] v n(2) by (auto simp add: replacer_def Number_toString_def radixDigits_16_digit)
  ultimately show ?thesis by blast
qed

lemma slot_x: "0 \<le> d \<Longrightarrow> d < 1 \<Longrightarrow> \<exists>h. replacer (of_char CHR ''x'') d = [h] \<and> slot (of_char CHR ''x'') h"
  using replacer_x[of d] by (auto simp: slot_def isHexDigit_digitChar)

lemma slot_y: "0 \<le> d \<Longrightarrow> d < 1 \<Longrightarrow> \<exists>h. replacer (of_char CHR ''y'') d = [h] \<and> slot (of_char CHR ''y'') h"
  using replacer_y[of d] by (auto simp: slot_def digitChar_def)

lemma replace_xy_slots:
  "\<forall>d\<in>sset rnd. 0 \<le> d \<and> d < 1 \<Longrightarrow> list_all2 slot tpl (replace_xy tpl rnd)"
proof (induction tpl arbitrary: rnd)
  case Nil
  show ?case by simp
next
  case (Cons c cs)
  have hd: "0 \<le> shd rnd" "shd rnd < 1" using Cons.prems shd_sset[of rnd] by auto
  have tl: "\<forall>d\<in>sset (stl rnd). 0 \<le> d \<and> d < 1" using Cons.prems stl_sset[of _ rnd] by blast
  consider (x) "c = of_char CHR ''x''" | (y) "c = of_char CHR ''y''"
    | (other) "c \<noteq> of_char CHR ''x''" "c \<noteq> of_char CHR ''y''" by blast
  then show ?case
  proof cases
    case x
    from slot_x[OF hd] obtain h where "replacer (of_char CHR ''x'') (shd rnd) = [h]" "slot (of_char CHR ''x'') h" by blast
    then show ?thesis using x Cons.IH[OF tl] by simp
  next
    case y
    from slot_y[OF hd] obtain h where "replacer (of_char CHR ''y'') (shd rnd) = [h]" "slot (of_char CHR ''y'') h" by blast
    then show ?thesis using y Cons.IH[OF tl] by simp
  next
    case other
    then show ?thesis using Cons.IH[OF Cons.prems] by (simp add: slot_def)
  qed
qed

lemma isHexDigit_version: "isHexDigit 0x34"
  by (simp add: isHexDigit_def)

lemma isHexDigit_variant: "d \<in> {0x38, 0x39, 0x61, 0x62} \<Longrightarrow> isHexDigit d"
  by (auto simp: isHexDigit_def)

lemma upt_36:
  "{0..<36} = set [0, 1, 2, 3, 4, 5, 6, 7, 8, 9, 10, 11, 12, 13, 14, 15, 16, 17, 18, 19, 20,
     21, 22, 23, 24, 25, 26, 27, 28, 29, 30, 31, 32, 33, 34, 35 :: nat]"
  by (simp only: atLeastLessThan_upt) code_simp

lemma layout_of_slots:
  assumes "list_all2 slot (lit ''xxxxxxxx-xxxx-4xxx-yxxx-xxxxxxxxxxxx'') s"
  shows "uuid_v4_layout s"
proof -
  from assms obtain h0 h1 h2 h3 h4 h5 h6 h7 h9 h10 h11 h12 h15 h16 h17 v h20 h21 h22
      h24 h25 h26 h27 h28 h29 h30 h31 h32 h33 h34 h35
    where s: "s = [h0, h1, h2, h3, h4, h5, h6, h7, 0x2D, h9, h10, h11, h12, 0x2D, 0x34, h15, h16, h17,
        0x2D, v, h20, h21, h22, 0x2D, h24, h25, h26, h27, h28, h29, h30, h31, h32, h33, h34, h35]"
      and h: "isHexDigit h0" "isHexDigit h1" "isHexDigit h2" "isHexDigit h3" "isHexDigit h4"
        "isHexDigit h5" "isHexDigit h6" "isHexDigit h7" "isHexDigit h9" "isHexDigit h10"
        "isHexDigit h11" "isHexDigit h12" "isHexDigit h15" "isHexDigit h16" "isHexDigit h17"
        "isHexDigit h20" "isHexDigit h21" "isHexDigit h22" "isHexDigit h24" "isHexDigit h25"
        "isHexDigit h26" "isHexDigit h27" "isHexDigit h28" "isHexDigit h29" "isHexDigit h30"
        "isHexDigit h31" "isHexDigit h32" "isHexDigit h33" "isHexDigit h34" "isHexDigit h35"
      and v: "v \<in> {0x38, 0x39, 0x61, 0x62}"
    by (simp only: lit_simps list_all2_Cons1 list_all2_Nil) (auto simp: slot_def)
  show ?thesis
    unfolding uuid_v4_layout_def upt_36 s
    using h v isHexDigit_variant[OF v] by (simp add: isHexDigit_version)
qed

text \<open>
  Claim C10. Whatever values between 0 (included) and 1 (excluded) the random source
  returns, the session identifier has the layout of a version 4 UUID: 36 characters,
  hyphens at the positions 9, 14, 19 and 24, hexadecimal digits elsewhere, the version
  digit 4 and a variant digit among 8, 9, a, b.
\<close>

theorem generateSessionId_layout:
  assumes "sset rnd \<subseteq> {0..<1}"
  shows "uuid_v4_layout (generateSessionId rnd)"
proof -
  have "\<forall>d\<in>sset rnd. 0 \<le> d \<and> d < 1"
    using assms by auto
  then have "list_all2 slot (lit ''xxxxxxxx-xxxx-4xxx-yxxx-xxxxxxxxxxxx'') (generateSessionId rnd)"
    unfolding generateSessionId_def by (rule replace_xy_slots)
  then show ?thesis
    by (rule layout_of_slots)
qed

theorem generateSessionId_layout_witness:
  "sset (sconst (15 / 16 :: real)) \<subseteq> {0..<1}
   \<and> uuid_v4_layout (generateSessionId (sconst (15 / 16)))
   \<and> generateSessionId (sconst (15 / 16)) = lit ''ffffffff-ffff-4fff-bfff-ffffffffffff''"
  using generateSessionId_layout [of "sconst (15 / 16)"]
  by (simp add: generateSessionId_def lit_simps replacer_def ToInt32_def Number_toString_def
      radixDigits.simps digitChar_def)

section \<open>Parsing agrees with the specification\<close>

lemma String_split_nonempty: "String_split sep s \<noteq> []"
  by (induction s) (auto split: list.splits)

lemma scan_segments_acc:
  "scan_segments acc s = (rev acc @ hd (scan_segments [] s)) # tl (scan_segments [] s)"
proof (induction s arbitrary: acc)
  case Nil
  show ?case by simp
next
  case (Cons c cs)
  show ?case
  proof (cases "c = of_char CHR '',''")
    case True
    then show ?thesis by simp
  next
    case False
    have "scan_segments (c # acc) cs = (rev (c # acc) @ hd (scan_segments [] cs)) # tl (scan_segments [] cs)"
      by (rule Cons.IH)
    moreover have "scan_segments [c] cs = (rev [c] @ hd (scan_segments [] cs)) # tl (scan_segments [] cs)"
      by (rule Cons.IH)
    ultimately show ?thesis using False by simp
  qed
qed

lemma String_split_comma: "String_split (of_char CHR '','') s = comma_segments s"
  unfolding comma_segments_def
proof (induction s)
  case Nil
  show ?case by simp
next
  case (Cons c cs)
  show ?case
  proof (cases "c = of_char CHR '',''")
    case True
    then show ?thesis using Cons.IH by simp
  next
    case False
    obtain p ps where ps: "String_split (of_char CHR '','') cs = p # ps"
      using String_split_nonempty by (cases "String_split (of_char CHR '','') cs") auto
    have "scan_segments [c] cs = (c # p) # ps"
      using scan_segments_acc[of "[c]" cs] Cons.IH ps by simp
    then show ?thesis using False ps by simp
  qed
qed

lemma strip_left_dropWhile: "strip_left s = dropWhile isWhiteSpace s"
  by (induction s) auto

lemma strip_right_rev: "strip_right s = rev (dropWhile isWhiteSpace (rev s))"
proof (induction s)
  case Nil
  show ?case by simp
next
  case (Cons c cs)
  show ?case
  proof (cases "dropWhile isWhiteSpace (rev cs) = []")
    case True
    then show ?thesis using Cons.IH by (simp add: dropWhile_append3 Let_def dropWhile_append)
  next
    case False
    then show ?thesis using Cons.IH by (simp add: Let_def dropWhile_append)
  qed
qed

lemma String_trim_strip: "String_trim s = strip s"
  by (simp add: String_trim_def strip_def strip_left_dropWhile strip_right_rev)

lemma parseApiKeys_spec: "parseApiKeys s = spec_pool s"
proof -
  have "truthy = (\<lambda>k. k \<noteq> [])"
    by (rule ext) (simp add: truthy_def)
  moreover have "String_trim = strip"
    by (rule ext) (rule String_trim_strip)
  ultimately show ?thesis
    unfolding parseApiKeys_def spec_pool_def String_split_comma by simp
qed

lemma spec_pool_empty: "spec_pool [] = []"
  by (simp add: spec_pool_def comma_segments_def strip_def)

text \<open>
  Claim C9. On a transformer whose pool is empty, a call whose provider carries the
  configuration string \<open>s\<close> leaves as pool the pieces of \<open>s\<close> between its commas, each
  stripped of white space, without the empty ones, in their order. The witness is the
  example of the specification: \<open>" k1 , k2 ,,k3 "\<close> gives \<open>k1\<close>, \<open>k2\<close>, \<open>k3\<close>.
\<close>

theorem pool_is_parsed:
  assumes "apiKeys t = []" and "apiKey p = Some s"
  shows "apiKeys (snd (transformRequestIn crypto rnd now t request p)) = spec_pool s"
  using assms
  by (auto simp: transformRequestIn_def Let_def initApiKeys_def advance_def truthy_def
       parseApiKeys_spec spec_pool_empty split: option.splits debug_outcome.splits)

theorem pool_is_parsed_witness:
  "apiKeys (HeaderTransformer None) = []
   \<and> apiKeys (snd (transformRequestIn echo_crypto (sconst 0) 0
         (HeaderTransformer None) () \<lparr>apiKey = Some (lit '' k1 , k2 ,,k3 '')\<rparr>))
       = [lit ''k1'', lit ''k2'', lit ''k3'']"
proof -
  have e: "apiKeys (HeaderTransformer None) = []"
    by (simp add: HeaderTransformer_def)
  have "spec_pool (lit '' k1 , k2 ,,k3 '') = [lit ''k1'', lit ''k2'', lit ''k3'']"
    by (simp add: spec_pool_def comma_segments_def strip_def lit_simps isWhiteSpace_def)
  then show ?thesis
    using e pool_is_parsed [OF e, of "\<lparr>apiKey = Some (lit '' k1 , k2 ,,k3 '')\<rparr>"
        "lit '' k1 , k2 ,,k3 ''" echo_crypto "sconst 0" 0 "()"]
    by simp
qed

section \<open>What a call does to the transformer\<close>

lemma snd_transformRequestIn:
  "snd (transformRequestIn crypto rnd now t request p) = advance (initApiKeys t p)"
  by (simp add: transformRequestIn_def Let_def split: option.splits debug_outcome.splits)

lemma snd_step: "snd (step crypto t c) = advance (initApiKeys t (call_provider c))"
  by (simp add: step_def snd_transformRequestIn)

lemma apiKeys_advance: "apiKeys (advance t) = apiKeys t"
  by (simp add: advance_def)

lemma initApiKeys_nonempty: "apiKeys t \<noteq> [] \<Longrightarrow> initApiKeys t p = t"
  by (simp add: initApiKeys_def split: option.splits)

lemma keyIndex_initApiKeys: "keyIndex (initApiKeys t p) = keyIndex t"
  by (simp add: initApiKeys_def split: option.splits)

lemma logger_step: "logger (snd (step crypto t c)) = logger t"
  by (simp add: snd_step advance_def initApiKeys_def split: option.splits)

lemma name_step: "name (snd (step crypto t c)) = name t"
  by (simp add: snd_step advance_def initApiKeys_def split: option.splits)

lemma run_append: "run crypto t (cs @ ds) = run crypto (run crypto t cs) ds"
  by (induction cs arbitrary: t) simp_all

lemma before_0: "before crypto t cs 0 = t"
  by (simp add: before_def)

lemma before_Suc:
  "i < length cs \<Longrightarrow> before crypto t cs (Suc i) = after crypto t cs i"
  by (simp add: before_def after_def take_Suc_conv_app_nth run_append)

lemma before_Cons_Suc:
  "before crypto t (c # cs) (Suc i) = before crypto (snd (step crypto t c)) cs i"
  by (simp add: before_def)

text \<open>Once the pool holds a key, no call changes it.\<close>

lemma apiKeys_step_nonempty:
  "apiKeys t \<noteq> [] \<Longrightarrow> apiKeys (snd (step crypto t c)) = apiKeys t"
  by (simp add: snd_step apiKeys_advance initApiKeys_nonempty)

lemma apiKeys_run_nonempty:
  "apiKeys t \<noteq> [] \<Longrightarrow> apiKeys (run crypto t cs) = apiKeys t"
  by (induction cs arbitrary: t) (simp_all add: apiKeys_step_nonempty)

text \<open>The cursor of a transformer with a pool of \<open>N\<close> keys.\<close>

lemma keyIndex_step_nonempty:
  assumes "apiKeys t \<noteq> []" and "keyIndex t = Fin k"
  shows "keyIndex (snd (step crypto t c)) = Fin (Suc k mod length (apiKeys t))"
  using assms by (simp add: snd_step initApiKeys_nonempty advance_def)

lemma keyIndex_run_nonempty:
  assumes "apiKeys t \<noteq> []" and "keyIndex t = Fin k" and "k < length (apiKeys t)"
  shows "keyIndex (run crypto t cs) = Fin ((k + length cs) mod length (apiKeys t))"
  using assms
proof (induction cs arbitrary: t k)
  case Nil
  then show ?case by simp
next
  case (Cons c cs)
  let ?t' = "snd (step crypto t c)"
  let ?N = "length (apiKeys t)"
  have pool: "apiKeys ?t' = apiKeys t"
    using Cons.prems(1) by (rule apiKeys_step_nonempty)
  have idx: "keyIndex ?t' = Fin (Suc k mod ?N)"
    using Cons.prems(1,2) by (rule keyIndex_step_nonempty)
  have "keyIndex (run crypto ?t' cs) = Fin ((Suc k mod ?N + length cs) mod ?N)"
    using Cons.IH[of ?t' "Suc k mod ?N"] pool idx Cons.prems(1) by simp
  then show ?case
    by (simp add: mod_add_left_eq)
qed

lemma currentApiKey_nonempty:
  assumes "apiKeys t \<noteq> []" and "keyIndex t = Fin k" and "k < length (apiKeys t)"
  shows "currentApiKey t p = Some (apiKeys t ! k)"
  using assms by (simp add: currentApiKey_def initApiKeys_nonempty)

text \<open>The first call on a new transformer, when \<open>provider.apiKey\<close> holds a key.\<close>

lemma first_call:
  assumes "apiKey p = Some s" and "parseApiKeys s \<noteq> []"
  shows "apiKeys (initApiKeys (HeaderTransformer lg) p) = parseApiKeys s"
    and "currentApiKey (HeaderTransformer lg) p = Some (parseApiKeys s ! 0)"
    and "keyIndex (advance (initApiKeys (HeaderTransformer lg) p)) = Fin (1 mod length (parseApiKeys s))"
proof -
  have "s \<noteq> []"
    using assms(2) by (auto simp: parseApiKeys_def String_trim_def truthy_def)
  then show init: "apiKeys (initApiKeys (HeaderTransformer lg) p) = parseApiKeys s"
    using assms(1) by (simp add: initApiKeys_def HeaderTransformer_def truthy_def)
  show "currentApiKey (HeaderTransformer lg) p = Some (parseApiKeys s ! 0)"
    using init assms(2) by (simp add: currentApiKey_def keyIndex_initApiKeys HeaderTransformer_def)
  show "keyIndex (advance (initApiKeys (HeaderTransformer lg) p)) = Fin (1 mod length (parseApiKeys s))"
    using init assms(2) by (simp add: advance_def keyIndex_initApiKeys HeaderTransformer_def)
qed

lemma round_robin_state:
  assumes "apiKey (call_provider c) = Some s" and "parseApiKeys s = pool" and "pool \<noteq> []"
  shows "apiKeys (before crypto (HeaderTransformer lg) (c # cs) (Suc i)) = pool"
    and "keyIndex (before crypto (HeaderTransformer lg) (c # cs) (Suc i))
           = Fin (Suc (min i (length cs)) mod length pool)"
proof -
  let ?t1 = "snd (step crypto (HeaderTransformer lg) c)"
  have ne: "parseApiKeys s \<noteq> []" using assms by simp
  have pool1: "apiKeys ?t1 = pool"
    using first_call(1)[OF assms(1) ne] assms(2) by (simp add: snd_step apiKeys_advance)
  have idx1: "keyIndex ?t1 = Fin (1 mod length pool)"
    using first_call(3)[OF assms(1) ne] assms(2) by (simp add: snd_step)
  have b: "before crypto (HeaderTransformer lg) (c # cs) (Suc i) = run crypto ?t1 (take i cs)"
    by (simp add: before_def)
  show "apiKeys (before crypto (HeaderTransformer lg) (c # cs) (Suc i)) = pool"
    using pool1 assms(3) by (simp add: b apiKeys_run_nonempty)
  have "keyIndex (run crypto ?t1 (take i cs))
          = Fin ((1 mod length pool + length (take i cs)) mod length (apiKeys ?t1))"
  proof (rule keyIndex_run_nonempty)
    show "apiKeys ?t1 \<noteq> []" using pool1 assms(3) by simp
    show "keyIndex ?t1 = Fin (1 mod length pool)" by (rule idx1)
    show "1 mod length pool < length (apiKeys ?t1)"
      unfolding pool1 using assms(3) by (intro mod_less_divisor) simp
  qed
  then show "keyIndex (before crypto (HeaderTransformer lg) (c # cs) (Suc i))
           = Fin (Suc (min i (length cs)) mod length pool)"
    using pool1 by (simp add: b mod_add_left_eq min.commute)
qed

text \<open>The key read on line 14 and the cursor left by line 15, call after call.\<close>

lemma round_robin_selected:
  assumes "apiKey (call_provider c) = Some s" and "parseApiKeys s = pool" and "pool \<noteq> []"
  shows "(\<forall>i < length (c # cs).
            selected crypto (HeaderTransformer lg) (c # cs) i = Some (pool ! (i mod length pool))
          \<and> keyIndex (after crypto (HeaderTransformer lg) (c # cs) i) = Fin (Suc i mod length pool))
       \<and> (length pool \<le> length (c # cs) \<longrightarrow>
            map (selected crypto (HeaderTransformer lg) (c # cs)) [0..<length pool] = map Some pool)"
proof -
  let ?t0 = "HeaderTransformer lg"
  let ?N = "length pool"
  have ne: "parseApiKeys s \<noteq> []" using assms by simp
  have sel: "selected crypto ?t0 (c # cs) i = Some (pool ! (i mod ?N))"
    if "i < length (c # cs)" for i
  proof (cases i)
    case 0
    then show ?thesis
      using first_call(2)[OF assms(1) ne] assms(2) by (simp add: selected_def before_0)
  next
    case (Suc j)
    have "j < length cs" using that Suc by simp
    then have "keyIndex (before crypto ?t0 (c # cs) (Suc j)) = Fin (Suc j mod ?N)"
      using round_robin_state(2)[OF assms, of crypto lg cs j] by (simp add: min_def)
    moreover have "apiKeys (before crypto ?t0 (c # cs) (Suc j)) = pool"
      by (rule round_robin_state(1)[OF assms])
    ultimately show ?thesis
      using assms(3) Suc by (simp add: selected_def currentApiKey_nonempty)
  qed
  have aft: "keyIndex (after crypto ?t0 (c # cs) i) = Fin (Suc i mod ?N)"
    if "i < length (c # cs)" for i
  proof -
    have "i \<le> length cs" using that by simp
    then have "keyIndex (before crypto ?t0 (c # cs) (Suc i)) = Fin (Suc i mod ?N)"
      using round_robin_state(2)[OF assms, of crypto lg cs i] by (simp add: min_def)
    then show ?thesis
      using before_Suc[OF that, of crypto ?t0] by simp
  qed
  have "map (selected crypto ?t0 (c # cs)) [0..<?N] = map Some pool"
    if "?N \<le> length (c # cs)"
  proof (rule nth_equalityI)
    show "length (map (selected crypto ?t0 (c # cs)) [0..<?N]) = length (map Some pool)"
      by simp
  next
    fix i
    assume "i < length (map (selected crypto ?t0 (c # cs)) [0..<?N])"
    then have i: "i < ?N" by simp
    then have "i < length (c # cs)" using that by simp
    from sel[OF this] i
    show "map (selected crypto ?t0 (c # cs)) [0..<?N] ! i = map Some pool ! i"
      by simp
  qed
  with sel aft show ?thesis by blast
qed

section \<open>What a call returns\<close>

lemma fst_transformRequestIn:
  assumes "fst (transformRequestIn crypto rnd now t request p) = Inr out"
  shows "out = \<lparr>body = request,
               config = \<lparr>headers = \<lparr>user_agent = lit ''iFlow-Cli'',
                    session_id = generateSessionId rnd,
                    conversation_id = [],
                    x_iflow_timestamp = Number_toString 10 now,
                    x_iflow_signature =
                      generateSignature crypto (lit ''iFlow-Cli'') (generateSessionId rnd) now
                        (currentApiKey t p)\<rparr>\<rparr>\<rparr>"
  using assms
  by (auto simp: transformRequestIn_def currentApiKey_def Let_def
      split: option.splits debug_outcome.splits)

lemma outcome_returns:
  assumes "outcome crypto t cs i = Inr out"
  shows "body out = call_request (cs ! i)"
    and "user_agent (headers (config out)) = lit ''iFlow-Cli''"
    and "session_id (headers (config out)) = generateSessionId (call_random (cs ! i))"
    and "conversation_id (headers (config out)) = []"
    and "x_iflow_timestamp (headers (config out)) = Number_toString 10 (call_now (cs ! i))"
    and "x_iflow_signature (headers (config out)) =
           generateSignature crypto (lit ''iFlow-Cli'') (generateSessionId (call_random (cs ! i)))
             (call_now (cs ! i)) (selected crypto t cs i)"
  using fst_transformRequestIn [OF assms [unfolded outcome_def step_def]]
  by (simp_all add: selected_def)

text \<open>No key of the pool is the empty string.\<close>

lemma parseApiKeys_truthy: "[] \<notin> set (parseApiKeys s)"
  by (simp add: parseApiKeys_def truthy_def)

lemma truthy_pool_step:
  "[] \<notin> set (apiKeys t) \<Longrightarrow> [] \<notin> set (apiKeys (snd (step crypto t c)))"
  by (simp add: snd_step apiKeys_advance initApiKeys_def parseApiKeys_truthy split: option.splits)

lemma truthy_pool_run:
  "[] \<notin> set (apiKeys t) \<Longrightarrow> [] \<notin> set (apiKeys (run crypto t cs))"
  by (induction cs arbitrary: t) (simp_all add: truthy_pool_step)

lemma currentApiKey_in_pool:
  "currentApiKey t p = Some k \<Longrightarrow> k \<in> set (apiKeys (initApiKeys t p))"
  by (cases "keyIndex t") (auto simp: currentApiKey_def Let_def keyIndex_initApiKeys split: if_splits)

lemma selected_truthy:
  assumes "selected crypto (HeaderTransformer lg) cs i = Some k"
  shows "k \<noteq> []"
proof -
  let ?t = "before crypto (HeaderTransformer lg) cs i"
  have "[] \<notin> set (apiKeys ?t)"
    unfolding before_def by (rule truthy_pool_run) (simp add: HeaderTransformer_def)
  then have "[] \<notin> set (apiKeys (initApiKeys ?t (call_provider (cs ! i))))"
    by (simp add: initApiKeys_def parseApiKeys_truthy split: option.splits)
  moreover have "k \<in> set (apiKeys (initApiKeys ?t (call_provider (cs ! i))))"
    using assms unfolding selected_def by (rule currentApiKey_in_pool)
  ultimately show ?thesis by auto
qed

lemma logger_advance_initApiKeys: "logger (advance (initApiKeys t p)) = logger t"
  by (simp add: advance_def initApiKeys_def split: option.splits)

lemma returns_without_logger:
  assumes "logger t = None"
  shows "\<exists>out. fst (transformRequestIn crypto rnd now t request p) = Inr out"
  using assms logger_advance_initApiKeys [of t p]
  by (simp add: transformRequestIn_def Let_def)

lemma fst_transformRequestIn_eq:
  "fst (transformRequestIn crypto rnd now t request p) =
     (let returned =
            \<lparr>body = request,
             config = \<lparr>headers = \<lparr>user_agent = lit ''iFlow-Cli'',
                  session_id = generateSessionId rnd,
                  conversation_id = [],
                  x_iflow_timestamp = Number_toString 10 now,
                  x_iflow_signature =
                    generateSignature crypto (lit ''iFlow-Cli'') (generateSessionId rnd) now
                      (currentApiKey t p)\<rparr>\<rparr>\<rparr>
      in case logger t of
           None \<Rightarrow> Inr returned
         | Some debug \<Rightarrow>
             (case debug (logMessage (keyIndex (advance (initApiKeys t p))) (currentApiKey t p)) of
                Throws \<Rightarrow> Inl LoggerError
              | Returns \<Rightarrow> Inr returned))"
  using logger_advance_initApiKeys [of t p]
  by (simp add: transformRequestIn_def currentApiKey_def Let_def
      split: option.splits debug_outcome.splits)

lemma logger_run: "logger (run crypto t cs) = logger t"
  by (induction cs arbitrary: t) (simp_all add: logger_step)

lemma outcome_without_logger:
  assumes "logger t = None"
  shows "\<exists>out. outcome crypto t cs i = Inr out"
  unfolding outcome_def step_def
  by (rule returns_without_logger) (simp add: before_def logger_run assms)

lemma logger_HeaderTransformer: "logger (HeaderTransformer lg) = lg"
  by (simp add: HeaderTransformer_def)

section \<open>Round robin\<close>

text \<open>What call number \<open>i\<close> returns or throws, on a new transformer whose first call configures the pool.\<close>

lemma round_robin_outcome:
  assumes "apiKey (call_provider c) = Some s" and "parseApiKeys s = pool" and "pool \<noteq> []"
  shows "(\<forall>i < length (c # cs).
            (let call = (c # cs) ! i;
                 key = pool ! (i mod length pool);
                 sessionId = generateSessionId (call_random call);
                 timestamp = Number_toString 10 (call_now call);
                 returned =
                   \<lparr>body = call_request call,
                    config = \<lparr>headers = \<lparr>user_agent = lit ''iFlow-Cli'',
                      session_id = sessionId,
                      conversation_id = [],
                      x_iflow_timestamp = timestamp,
                      x_iflow_signature =
                        Some (crypto (lit ''sha256'') key
                                (lit ''iFlow-Cli'' @ lit '':'' @ sessionId @ lit '':'' @ timestamp)
                                (lit ''utf8'') (lit ''hex''))\<rparr>\<rparr>\<rparr>
             in outcome crypto (HeaderTransformer lg) (c # cs) i =
                  (case lg of
                     None \<Rightarrow> Inr returned
                   | Some debug \<Rightarrow>
                       (case debug (logMessage (Fin (Suc i mod length pool)) (Some key)) of
                          Throws \<Rightarrow> Inl LoggerError
                        | Returns \<Rightarrow> Inr returned))
              \<and> selected crypto (HeaderTransformer lg) (c # cs) i = Some key
              \<and> keyIndex (after crypto (HeaderTransformer lg) (c # cs) i)
                    = Fin (Suc i mod length pool)))
       \<and> (length pool \<le> length (c # cs) \<longrightarrow>
            map (selected crypto (HeaderTransformer lg) (c # cs)) [0..<length pool] = map Some pool)"
proof -
  let ?t0 = "HeaderTransformer lg"
  let ?N = "length pool"
  note rr = round_robin_selected [where crypto = crypto and cs = cs and lg = lg, OF assms]
  have each: "outcome crypto ?t0 (c # cs) i =
      (let call = (c # cs) ! i;
           key = pool ! (i mod ?N);
           sessionId = generateSessionId (call_random call);
           timestamp = Number_toString 10 (call_now call);
           returned =
             \<lparr>body = call_request call,
              config = \<lparr>headers = \<lparr>user_agent = lit ''iFlow-Cli'',
                session_id = sessionId,
                conversation_id = [],
                x_iflow_timestamp = timestamp,
                x_iflow_signature =
                  Some (crypto (lit ''sha256'') key
                          (lit ''iFlow-Cli'' @ lit '':'' @ sessionId @ lit '':'' @ timestamp)
                          (lit ''utf8'') (lit ''hex''))\<rparr>\<rparr>\<rparr>
       in case lg of
            None \<Rightarrow> Inr returned
          | Some debug \<Rightarrow>
              (case debug (logMessage (Fin (Suc i mod ?N)) (Some key)) of
                 Throws \<Rightarrow> Inl LoggerError
               | Returns \<Rightarrow> Inr returned))"
    if i: "i < length (c # cs)" for i
  proof -
    let ?b = "before crypto ?t0 (c # cs) i"
    let ?p = "call_provider ((c # cs) ! i)"
    have sel: "currentApiKey ?b ?p = Some (pool ! (i mod ?N))"
      using rr [THEN conjunct1, rule_format, OF i] by (simp add: selected_def)
    have idx: "keyIndex (advance (initApiKeys ?b ?p)) = Fin (Suc i mod ?N)"
      using rr [THEN conjunct1, rule_format, OF i] by (simp add: after_def snd_step)
    have lg: "logger ?b = lg"
      by (simp add: before_def logger_run logger_HeaderTransformer)
    have "pool ! (i mod ?N) \<in> set pool"
      using assms(3) by simp
    then have key: "pool ! (i mod ?N) \<noteq> []"
      using parseApiKeys_truthy [of s] assms(2) by auto
    note E = fst_transformRequestIn_eq [of crypto "call_random ((c # cs) ! i)"
        "call_now ((c # cs) ! i)" ?b "call_request ((c # cs) ! i)" ?p, unfolded sel idx lg]
    show ?thesis
      unfolding outcome_def step_def E
      by (simp add: key Let_def generateSignature_def truthy_def
          split: option.split debug_outcome.split)
  qed
  show ?thesis
    using rr each by (simp add: Let_def)
qed

text \<open>
  Claim C2. On a new transformer whose first call configures a pool of \<open>N \<ge> 1\<close> keys, call
  number \<open>i\<close> (counted from 0) uses the key at index \<open>i mod N\<close> and leaves the cursor at
  \<open>(i + 1) mod N\<close>: the signature it returns is the HMAC under that key of the emitted
  user agent, session identifier and timestamp, and it throws exactly when \<open>debug\<close> throws
  on the message that names that key and that cursor. So the first \<open>N\<close> calls use the
  keys of the pool, each once, in the configured order. The witness is the example of
  the specification, with the pool \<open>abc12345\<close>, \<open>def67890\<close> and three calls.
\<close>

theorem round_robin:
  assumes "apiKey (call_provider c) = Some s" and "parseApiKeys s = pool" and "pool \<noteq> []"
  shows "(\<forall>i < length (c # cs).
            (\<forall>out. outcome crypto (HeaderTransformer lg) (c # cs) i = Inr out \<longrightarrow>
                x_iflow_signature (headers (config out)) =
                  Some (crypto (lit ''sha256'') (pool ! (i mod length pool))
                          (lit ''iFlow-Cli'' @ lit '':'' @ session_id (headers (config out))
                             @ lit '':'' @ x_iflow_timestamp (headers (config out)))
                          (lit ''utf8'') (lit ''hex'')))
          \<and> (outcome crypto (HeaderTransformer lg) (c # cs) i = Inl LoggerError \<longleftrightarrow>
                (\<exists>debug. lg = Some debug
                   \<and> debug (logMessage (Fin (Suc i mod length pool))
                               (Some (pool ! (i mod length pool)))) = Throws))
          \<and> selected crypto (HeaderTransformer lg) (c # cs) i = Some (pool ! (i mod length pool))
          \<and> keyIndex (after crypto (HeaderTransformer lg) (c # cs) i) = Fin (Suc i mod length pool))
       \<and> (length pool \<le> length (c # cs) \<longrightarrow>
            map (selected crypto (HeaderTransformer lg) (c # cs)) [0..<length pool] = map Some pool)"
proof -
  note ro = round_robin_outcome [where crypto = crypto and cs = cs and lg = lg, OF assms]
  have sig: "x_iflow_signature (headers (config out)) =
        Some (crypto (lit ''sha256'') (pool ! (i mod length pool))
                (lit ''iFlow-Cli'' @ lit '':'' @ session_id (headers (config out))
                   @ lit '':'' @ x_iflow_timestamp (headers (config out)))
                (lit ''utf8'') (lit ''hex''))"
    if "i < length (c # cs)" and "outcome crypto (HeaderTransformer lg) (c # cs) i = Inr out"
    for i out
    using ro [THEN conjunct1, rule_format, OF that(1)] that(2)
    by (auto simp: Let_def split: option.splits debug_outcome.splits)
  have thr: "outcome crypto (HeaderTransformer lg) (c # cs) i = Inl LoggerError \<longleftrightarrow>
        (\<exists>debug. lg = Some debug
           \<and> debug (logMessage (Fin (Suc i mod length pool))
                       (Some (pool ! (i mod length pool)))) = Throws)"
    if "i < length (c # cs)" for i
    using ro [THEN conjunct1, rule_format, OF that]
    by (auto simp: Let_def split: option.splits debug_outcome.splits)
  show ?thesis
    using ro sig thr by (simp add: Let_def)
qed

theorem round_robin_witness:
  "(let c = \<lparr>call_request = (), call_provider = \<lparr>apiKey = Some (lit ''abc12345,def67890'')\<rparr>,
              call_random = sconst 0, call_now = 0\<rparr>;
        t = HeaderTransformer None;
        H = echo_crypto;
        returned = (\<lambda>key.
          Inr \<lparr>body = (),
               config = \<lparr>headers = \<lparr>user_agent = lit ''iFlow-Cli'',
                 session_id = lit ''00000000-0000-4000-8000-000000000000'',
                 conversation_id = [],
                 x_iflow_timestamp = lit ''0'',
                 x_iflow_signature =
                   Some (key @ lit ''iFlow-Cli:00000000-0000-4000-8000-000000000000:0'')\<rparr>\<rparr>\<rparr>)
    in outcome H t [c, c, c] 0 = returned (lit ''abc12345'')
     \<and> selected H t [c, c, c] 0 = Some (lit ''abc12345'')
     \<and> keyIndex (after H t [c, c, c] 0) = Fin 1
     \<and> outcome H t [c, c, c] 1 = returned (lit ''def67890'')
     \<and> selected H t [c, c, c] 1 = Some (lit ''def67890'')
     \<and> keyIndex (after H t [c, c, c] 1) = Fin 0
     \<and> outcome H t [c, c, c] 2 = returned (lit ''abc12345'')
     \<and> selected H t [c, c, c] 2 = Some (lit ''abc12345'')
     \<and> map (selected H t [c, c, c]) [0..<2] = [Some (lit ''abc12345''), Some (lit ''def67890'')])"
proof -
  let ?c = "\<lparr>call_request = (), call_provider = \<lparr>apiKey = Some (lit ''abc12345,def67890'')\<rparr>,
              call_random = sconst (0::real), call_now = 0\<rparr>"
  let ?pool = "[lit ''abc12345'', lit ''def67890'']"
  have k: "apiKey (call_provider ?c) = Some (lit ''abc12345,def67890'')"
    by simp
  have p: "parseApiKeys (lit ''abc12345,def67890'') = ?pool"
    by (simp add: parseApiKeys_def String_trim_def lit_simps isWhiteSpace_def truthy_def)
  have n: "?pool \<noteq> []"
    by simp
  note rr = round_robin [where crypto = echo_crypto and cs = "[?c, ?c]"
      and lg = None, OF k p n]
  have len: "length ?pool = 2"
    by simp
  note each = rr [unfolded len, THEN conjunct1, rule_format]
  note all = rr [unfolded len, THEN conjunct2, rule_format]
  have sid: "generateSessionId (sconst 0) = lit ''00000000-0000-4000-8000-000000000000''"
    by (simp add: value_simps)
  have ts: "Number_toString 10 0 = lit ''0''"
    by (simp add: value_simps)
  note ro = round_robin_outcome [where crypto = echo_crypto and cs = "[?c, ?c]"
      and lg = None, OF k p n, unfolded len, THEN conjunct1, rule_format]
  have out0: "outcome echo_crypto (HeaderTransformer None) [?c, ?c, ?c] 0 =
      Inr \<lparr>body = (),
           config = \<lparr>headers = \<lparr>user_agent = lit ''iFlow-Cli'',
             session_id = lit ''00000000-0000-4000-8000-000000000000'',
             conversation_id = [],
             x_iflow_timestamp = lit ''0'',
             x_iflow_signature = Some (lit ''abc12345'' @
               lit ''iFlow-Cli:00000000-0000-4000-8000-000000000000:0'')\<rparr>\<rparr>\<rparr>"
    using ro [of 0] by (simp add: Let_def sid ts echo_crypto_def lit_simps)
  have out1: "outcome echo_crypto (HeaderTransformer None) [?c, ?c, ?c] 1 =
      Inr \<lparr>body = (),
           config = \<lparr>headers = \<lparr>user_agent = lit ''iFlow-Cli'',
             session_id = lit ''00000000-0000-4000-8000-000000000000'',
             conversation_id = [],
             x_iflow_timestamp = lit ''0'',
             x_iflow_signature = Some (lit ''def67890'' @
               lit ''iFlow-Cli:00000000-0000-4000-8000-000000000000:0'')\<rparr>\<rparr>\<rparr>"
    using ro [of 1] by (simp add: Let_def sid ts echo_crypto_def lit_simps)
  have out2: "outcome echo_crypto (HeaderTransformer None) [?c, ?c, ?c] 2 =
      Inr \<lparr>body = (),
           config = \<lparr>headers = \<lparr>user_agent = lit ''iFlow-Cli'',
             session_id = lit ''00000000-0000-4000-8000-000000000000'',
             conversation_id = [],
             x_iflow_timestamp = lit ''0'',
             x_iflow_signature = Some (lit ''abc12345'' @
               lit ''iFlow-Cli:00000000-0000-4000-8000-000000000000:0'')\<rparr>\<rparr>\<rparr>"
    using ro [of 2] by (simp add: Let_def sid ts echo_crypto_def lit_simps)
  show ?thesis
    using each [of 0] each [of 1] each [of 2] all out0 out1 out2
    by (simp add: Let_def)
qed

section \<open>The signature\<close>

text \<open>
  Claim C3. In every call made on a transformer since it was created that selects a
  credential and returns, the header \<open>x-iflow-signature\<close> is the HMAC, under the selected
  credential, of the user agent \<open>iFlow-Cli\<close>, the emitted session identifier and the
  emitted timestamp joined by colons; the session identifier is the generated one and
  the timestamp the decimal text of the captured time. The signature is thus a function
  of these four values alone.
\<close>

theorem signature_is_hmac:
  assumes "i < length cs"
    and "selected crypto (HeaderTransformer lg) cs i = Some k"
    and "outcome crypto (HeaderTransformer lg) cs i = Inr out"
  shows "x_iflow_signature (headers (config out))
           = Some (crypto (lit ''sha256'') k
               (lit ''iFlow-Cli'' @ lit '':'' @ session_id (headers (config out)) @ lit '':''
                  @ x_iflow_timestamp (headers (config out)))
               (lit ''utf8'') (lit ''hex''))
       \<and> user_agent (headers (config out)) = lit ''iFlow-Cli''
       \<and> session_id (headers (config out)) = generateSessionId (call_random (cs ! i))
       \<and> x_iflow_timestamp (headers (config out)) = Number_toString 10 (call_now (cs ! i))"
proof -
  have "k \<noteq> []"
    using assms(2) by (rule selected_truthy)
  then show ?thesis
    using outcome_returns [OF assms(3)] assms(2)
    by (simp add: generateSignature_def Let_def truthy_def)
qed

theorem signature_is_hmac_witness:
  "(let c = \<lparr>call_request = (), call_provider = \<lparr>apiKey = Some (lit ''abc12345,def67890'')\<rparr>,
              call_random = sconst 0, call_now = 1700000000000\<rparr>;
        H = echo_crypto
    in selected H (HeaderTransformer None) [c] 0 = Some (lit ''abc12345'')
     \<and> outcome H (HeaderTransformer None) [c] 0 =
         Inr \<lparr>body = (),
              config = \<lparr>headers = \<lparr>user_agent = lit ''iFlow-Cli'',
                session_id = lit ''00000000-0000-4000-8000-000000000000'',
                conversation_id = [],
                x_iflow_timestamp = lit ''1700000000000'',
                x_iflow_signature = Some (lit ''abc12345'' @
                  lit ''iFlow-Cli:00000000-0000-4000-8000-000000000000:1700000000000'')\<rparr>\<rparr>\<rparr>)"
proof -
  let ?c = "\<lparr>call_request = (), call_provider = \<lparr>apiKey = Some (lit ''abc12345,def67890'')\<rparr>,
              call_random = sconst (0::real), call_now = 1700000000000\<rparr>"
  let ?H = echo_crypto
  have sel: "selected ?H (HeaderTransformer None) [?c] 0 = Some (lit ''abc12345'')"
    by (simp add: call_simps value_simps)
  obtain out where out: "outcome ?H (HeaderTransformer None) [?c] 0 = Inr out"
    using outcome_without_logger [OF logger_HeaderTransformer] by blast
  have len: "0 < length [?c]"
    by simp
  have "out = \<lparr>body = call_request ?c,
              config = \<lparr>headers = \<lparr>user_agent = user_agent (headers (config out)),
                session_id = session_id (headers (config out)),
                conversation_id = [],
                x_iflow_timestamp = x_iflow_timestamp (headers (config out)),
                x_iflow_signature = x_iflow_signature (headers (config out))\<rparr>\<rparr>\<rparr>"
    using outcome_returns(1,4) [OF out] by simp
  then show ?thesis
    using signature_is_hmac [OF len sel out] sel out
    by (simp add: value_simps)
qed

section \<open>The empty pool\<close>

text \<open>A cursor that holds \<open>NaN\<close>.\<close>

lemma NaN_step: "keyIndex t = NaN \<Longrightarrow> keyIndex (snd (step crypto t c)) = NaN"
  by (simp add: snd_step advance_def keyIndex_initApiKeys)

lemma NaN_run: "keyIndex t = NaN \<Longrightarrow> keyIndex (run crypto t cs) = NaN"
  by (induction cs arbitrary: t) (simp_all add: NaN_step)

lemma NaN_selects_nothing: "keyIndex t = NaN \<Longrightarrow> currentApiKey t p = None"
  by (simp add: currentApiKey_def Let_def keyIndex_initApiKeys)

lemma empty_pool_advance: "apiKeys t = [] \<Longrightarrow> keyIndex (advance t) = NaN"
  by (cases "keyIndex t") (simp_all add: advance_def)

text \<open>
  Claim C4. A call whose pool is still empty when it selects (lines 14 and 15) leaves
  \<open>NaN\<close> in \<open>keyIndex\<close>, and every later call selects no credential, leaves \<open>NaN\<close> again, and
  returns a null \<open>x-iflow-signature\<close>, whatever its provider holds. In the witness the
  later call carries the key \<open>k1\<close>: the pool is parsed, and still no key is selected.
\<close>

theorem empty_pool_cursor_NaN_forever:
  assumes "apiKeys (initApiKeys t p) = []"
  shows "keyIndex (snd (transformRequestIn crypto rnd now t request p)) = NaN
       \<and> (\<forall>cs i. i < length cs \<longrightarrow>
            selected crypto (snd (transformRequestIn crypto rnd now t request p)) cs i = None
          \<and> keyIndex (after crypto (snd (transformRequestIn crypto rnd now t request p)) cs i) = NaN
          \<and> (\<forall>out. outcome crypto (snd (transformRequestIn crypto rnd now t request p)) cs i = Inr out
                \<longrightarrow> x_iflow_signature (headers (config out)) = None))"
proof -
  let ?t' = "snd (transformRequestIn crypto rnd now t request p)"
  have nan: "keyIndex ?t' = NaN"
    using assms by (simp add: snd_transformRequestIn empty_pool_advance)
  have later: "selected crypto ?t' cs i = None
      \<and> keyIndex (after crypto ?t' cs i) = NaN
      \<and> (\<forall>out. outcome crypto ?t' cs i = Inr out
            \<longrightarrow> x_iflow_signature (headers (config out)) = None)"
    for cs :: "'b call list" and i
  proof -
    have b: "keyIndex (before crypto ?t' cs i) = NaN"
      unfolding before_def using nan by (rule NaN_run)
    then have s: "selected crypto ?t' cs i = None"
      by (simp add: selected_def NaN_selects_nothing)
    have a: "keyIndex (after crypto ?t' cs i) = NaN"
      unfolding after_def using b by (rule NaN_step)
    have "x_iflow_signature (headers (config out)) = None"
      if "outcome crypto ?t' cs i = Inr out" for out
      using outcome_returns(6) [OF that] s by (simp add: generateSignature_def)
    with s a show ?thesis by blast
  qed
  from nan later show ?thesis by blast
qed

theorem empty_pool_cursor_NaN_forever_witness:
  "(let t' = snd (transformRequestIn echo_crypto (sconst 0) 0
                (HeaderTransformer None) () \<lparr>apiKey = None\<rparr>);
        c = \<lparr>call_request = (), call_provider = \<lparr>apiKey = Some (lit ''k1'')\<rparr>,
              call_random = sconst 0, call_now = 0\<rparr>
    in apiKeys (initApiKeys (HeaderTransformer None) \<lparr>apiKey = None\<rparr>) = []
     \<and> keyIndex t' = NaN
     \<and> selected echo_crypto t' [c] 0 = None
     \<and> apiKeys (after echo_crypto t' [c] 0) = [lit ''k1'']
     \<and> keyIndex (after echo_crypto t' [c] 0) = NaN
     \<and> (\<exists>out. outcome echo_crypto t' [c] 0 = Inr out
            \<and> x_iflow_signature (headers (config out)) = None))"
proof -
  let ?H = echo_crypto
  let ?t' = "snd (transformRequestIn ?H (sconst 0) 0 (HeaderTransformer None) () \<lparr>apiKey = None\<rparr>)"
  let ?c = "\<lparr>call_request = (), call_provider = \<lparr>apiKey = Some (lit ''k1'')\<rparr>,
              call_random = sconst (0::real), call_now = 0\<rparr>"
  have e: "apiKeys (initApiKeys (HeaderTransformer None) \<lparr>apiKey = None\<rparr>) = []"
    by (simp add: initApiKeys_def HeaderTransformer_def)
  note T = empty_pool_cursor_NaN_forever [OF e, of ?H "sconst 0" 0 "()"]
  note later = T [THEN conjunct2, rule_format, of 0 "[?c]"]
  have pool: "apiKeys (after ?H ?t' [?c] 0) = [lit ''k1'']"
    by (simp add: call_simps value_simps)
  have lg: "logger ?t' = None"
    by (simp add: snd_transformRequestIn logger_advance_initApiKeys HeaderTransformer_def)
  obtain out where out: "outcome ?H ?t' [?c] 0 = Inr out"
    using outcome_without_logger [OF lg] by blast
  show ?thesis
    using e T [THEN conjunct1] later pool out by (auto simp: Let_def)
qed

section \<open>When the pool is parsed\<close>

lemma apiKeys_step:
  "apiKeys (snd (step crypto t c)) =
     (if apiKeys t = [] then (case apiKey (call_provider c) of None \<Rightarrow> [] | Some s \<Rightarrow> parseApiKeys s)
      else apiKeys t)"
proof -
  have "parseApiKeys [] = []"
    by (simp add: parseApiKeys_def String_trim_def truthy_def)
  then show ?thesis
    by (auto simp: snd_step apiKeys_advance initApiKeys_def truthy_def split: option.splits)
qed

lemma before_add:
  "before crypto t cs (i + d) = run crypto (before crypto t cs i) (take d (drop i cs))"
  by (simp add: before_def take_add run_append)

text \<open>
  Claim C5, as amended. Parsing is not tied to the first call: a call parses
  \<open>provider.apiKey\<close> whenever it finds the pool empty, and once a call has found the pool
  not empty, every later call finds the same pool, whatever \<open>provider.apiKey\<close> has
  become.
\<close>

theorem pool_parsed_while_empty_then_fixed:
  "(\<forall>i < length cs.
       apiKeys (after crypto t cs i) =
         (if apiKeys (before crypto t cs i) = []
          then (case apiKey (call_provider (cs ! i)) of None \<Rightarrow> [] | Some s \<Rightarrow> parseApiKeys s)
          else apiKeys (before crypto t cs i)))
   \<and> (\<forall>i j. i \<le> j \<longrightarrow> apiKeys (before crypto t cs i) \<noteq> [] \<longrightarrow>
          apiKeys (before crypto t cs j) = apiKeys (before crypto t cs i))"
proof -
  have "apiKeys (before crypto t cs j) = apiKeys (before crypto t cs i)"
    if "i \<le> j" and "apiKeys (before crypto t cs i) \<noteq> []" for i j
  proof -
    have "before crypto t cs j = run crypto (before crypto t cs i) (take (j - i) (drop i cs))"
      using before_add [of crypto t cs i "j - i"] that(1) by simp
    then show ?thesis
      using that(2) by (simp add: apiKeys_run_nonempty)
  qed
  then show ?thesis
    by (simp add: after_def apiKeys_step)
qed

theorem pool_parsed_while_empty_then_fixed_witness:
  "(let a = \<lparr>call_request = (), call_provider = \<lparr>apiKey = Some (lit ''k1,k2'')\<rparr>,
              call_random = sconst 0, call_now = 0\<rparr>;
        b = \<lparr>call_request = (), call_provider = \<lparr>apiKey = Some (lit ''k3'')\<rparr>,
              call_random = sconst 0, call_now = 0\<rparr>;
        H = echo_crypto
    in apiKeys (before H (HeaderTransformer None) [a, b] 0) = []
     \<and> apiKeys (after H (HeaderTransformer None) [a, b] 0) = [lit ''k1'', lit ''k2'']
     \<and> apiKeys (before H (HeaderTransformer None) [a, b] 1) = [lit ''k1'', lit ''k2'']
     \<and> apiKeys (before H (HeaderTransformer None) [a, b] 2) = [lit ''k1'', lit ''k2''])"
proof -
  let ?a = "\<lparr>call_request = (), call_provider = \<lparr>apiKey = Some (lit ''k1,k2'')\<rparr>,
              call_random = sconst (0::real), call_now = 0\<rparr>"
  let ?b = "\<lparr>call_request = (), call_provider = \<lparr>apiKey = Some (lit ''k3'')\<rparr>,
              call_random = sconst (0::real), call_now = 0\<rparr>"
  let ?H = echo_crypto
  note T = pool_parsed_while_empty_then_fixed [of "[?a, ?b]" ?H "HeaderTransformer None"]
  have b0: "apiKeys (before ?H (HeaderTransformer None) [?a, ?b] 0) = []"
    by (simp add: before_def HeaderTransformer_def)
  have p: "parseApiKeys (lit ''k1,k2'') = [lit ''k1'', lit ''k2'']"
    by (simp add: value_simps)
  have a0: "apiKeys (after ?H (HeaderTransformer None) [?a, ?b] 0) = [lit ''k1'', lit ''k2'']"
    using T [THEN conjunct1, rule_format, of 0] b0 p by simp
  have b1: "apiKeys (before ?H (HeaderTransformer None) [?a, ?b] 1) = [lit ''k1'', lit ''k2'']"
    using a0 before_Suc [of 0 "[?a, ?b]" ?H "HeaderTransformer None"] by simp
  have b2: "apiKeys (before ?H (HeaderTransformer None) [?a, ?b] 2) = [lit ''k1'', lit ''k2'']"
    using T [THEN conjunct2, rule_format, of 1 2] b1 by simp
  show ?thesis
    using b0 a0 b1 b2 by (simp add: Let_def)
qed

text \<open>
  Claim C5 as stated fails: the first call has no \<open>apiKey\<close> and leaves the pool empty, the
  second call carries \<open>k1\<close> and changes the pool.
\<close>

theorem pool_parsed_on_later_call:
  "(let none = \<lparr>call_request = (), call_provider = \<lparr>apiKey = None\<rparr>,
                 call_random = sconst 0, call_now = 0\<rparr>;
        k1 = \<lparr>call_request = (), call_provider = \<lparr>apiKey = Some (lit ''k1'')\<rparr>,
               call_random = sconst 0, call_now = 0\<rparr>;
        H = echo_crypto
    in apiKeys (after H (HeaderTransformer None) [none, k1] 0) = []
     \<and> apiKeys (before H (HeaderTransformer None) [none, k1] 1) = []
     \<and> apiKeys (after H (HeaderTransformer None) [none, k1] 1) = [lit ''k1''])"
  by (simp add: call_simps value_simps)

section \<open>The signature and the key\<close>

text \<open>
  Claim C6, as amended. \<open>generateSignature\<close> returns null for a missing key and also for
  a key that is the empty string, and for every other key the HMAC of the message, where
  the timestamp is an integer of magnitude at most \<open>2^53\<close> (as every value of \<open>Date.now()\<close>
  is), whose text is its decimal digits. In the calls made on a transformer since it was
  created the selected key is never the empty string, so a call that returns has a null
  signature exactly when it selected no key.
\<close>

theorem generateSignature_by_key:
  "generateSignature crypto userAgent sessionId timestamp None = None
   \<and> generateSignature crypto userAgent sessionId timestamp (Some []) = None
   \<and> (k \<noteq> [] \<and> \<bar>timestamp\<bar> \<le> 2 ^ 53 \<longrightarrow>
        generateSignature crypto userAgent sessionId timestamp (Some k) =
          Some (crypto (lit ''sha256'') k
            (userAgent @ lit '':'' @ sessionId @ lit '':'' @ Number_toString 10 timestamp)
            (lit ''utf8'') (lit ''hex'')))
   \<and> (\<forall>i < length cs.
          selected crypto (HeaderTransformer lg) cs i \<noteq> Some []
        \<and> (\<forall>out. outcome crypto (HeaderTransformer lg) cs i = Inr out \<longrightarrow>
              (x_iflow_signature (headers (config out)) = None
                 \<longleftrightarrow> selected crypto (HeaderTransformer lg) cs i = None)))"
proof -
  have sel: "selected crypto (HeaderTransformer lg) cs i \<noteq> Some []" for i
    using selected_truthy [of crypto lg cs i "[]"] by blast
  have "x_iflow_signature (headers (config out)) = None
          \<longleftrightarrow> selected crypto (HeaderTransformer lg) cs i = None"
    if "outcome crypto (HeaderTransformer lg) cs i = Inr out" for i out
    using outcome_returns(6) [OF that] sel [of i]
    by (cases "selected crypto (HeaderTransformer lg) cs i")
      (simp_all add: generateSignature_def truthy_def)
  with sel show ?thesis
    by (simp add: generateSignature_def Let_def truthy_def)
qed

theorem generateSignature_by_key_witness:
  "(let c = \<lparr>call_request = (), call_provider = \<lparr>apiKey = Some (lit ''k1, ,k2'')\<rparr>,
              call_random = sconst 0, call_now = 0\<rparr>;
        H = echo_crypto
    in generateSignature H (lit ''ua'') (lit ''sid'') 7 (Some (lit ''k1'')) = Some (lit ''k1ua:sid:7'')
     \<and> selected H (HeaderTransformer None) [c, c] 1 = Some (lit ''k2'')
     \<and> (\<exists>out. outcome H (HeaderTransformer None) [c, c] 1 = Inr out
            \<and> x_iflow_signature (headers (config out)) \<noteq> None))"
proof -
  let ?c = "\<lparr>call_request = (), call_provider = \<lparr>apiKey = Some (lit ''k1, ,k2'')\<rparr>,
              call_random = sconst (0::real), call_now = 0\<rparr>"
  let ?H = echo_crypto
  note T = generateSignature_by_key [of ?H "lit ''ua''" "lit ''sid''" 7 "lit ''k1''" "[?c, ?c]" None]
  have g: "generateSignature ?H (lit ''ua'') (lit ''sid'') 7 (Some (lit ''k1'')) = Some (lit ''k1ua:sid:7'')"
    using T [THEN conjunct2, THEN conjunct2, THEN conjunct1] by (simp add: value_simps)
  have sel: "selected ?H (HeaderTransformer None) [?c, ?c] 1 = Some (lit ''k2'')"
    by (simp add: call_simps value_simps)
  obtain out where out: "outcome ?H (HeaderTransformer None) [?c, ?c] 1 = Inr out"
    using outcome_without_logger [OF logger_HeaderTransformer] by blast
  have "x_iflow_signature (headers (config out)) \<noteq> None"
    using T [THEN conjunct2, THEN conjunct2, THEN conjunct2, rule_format, of 1] out sel by simp
  then show ?thesis
    using g sel out by (simp add: Let_def)
qed

text \<open>Claim C6 as stated fails: the empty key gives null, not an HMAC.\<close>

theorem empty_key_gives_null:
  "generateSignature echo_crypto (lit ''iFlow-Cli'')
     (lit ''00000000-0000-4000-8000-000000000000'') 1700000000000 (Some []) = None"
  by (simp add: generateSignature_def truthy_def)

section \<open>Exceptions\<close>

text \<open>
  Claim C7, as amended. A call returns when the transformer has no logger, and when
  \<open>debug\<close> returns on the message of the call, whatever the provider and the pool are;
  when \<open>debug\<close> throws, the call throws.
\<close>

theorem throws_only_when_debug_throws:
  "(logger t = None \<longrightarrow> (\<exists>out. fst (transformRequestIn crypto rnd now t request p) = Inr out))
   \<and> (\<forall>debug. logger t = Some debug \<longrightarrow>
         (debug (logMessage (keyIndex (snd (transformRequestIn crypto rnd now t request p)))
                   (currentApiKey t p)) = Returns
            \<longrightarrow> (\<exists>out. fst (transformRequestIn crypto rnd now t request p) = Inr out))
       \<and> (debug (logMessage (keyIndex (snd (transformRequestIn crypto rnd now t request p)))
                   (currentApiKey t p)) = Throws
            \<longrightarrow> fst (transformRequestIn crypto rnd now t request p) = Inl LoggerError))"
proof -
  have lg: "logger (advance (initApiKeys t p)) = logger t"
    by (rule logger_advance_initApiKeys)
  show ?thesis
    unfolding snd_transformRequestIn
    using lg by (auto simp: transformRequestIn_def currentApiKey_def Let_def)
qed

theorem throws_only_when_debug_throws_witness:
  "(\<exists>out. fst (transformRequestIn echo_crypto (sconst 0) 0
        (HeaderTransformer None) () \<lparr>apiKey = None\<rparr>) = Inr out)
   \<and> (\<exists>out. fst (transformRequestIn echo_crypto (sconst 0) 0
        (HeaderTransformer (Some (\<lambda>message. Returns))) () \<lparr>apiKey = Some []\<rparr>) = Inr out)
   \<and> fst (transformRequestIn echo_crypto (sconst 0) 0
        (HeaderTransformer (Some (\<lambda>message. if message = logMessage NaN None then Throws else Returns)))
        () \<lparr>apiKey = None\<rparr>) = Inl LoggerError"
proof -
  let ?H = echo_crypto
  have a: "\<exists>out. fst (transformRequestIn ?H (sconst 0) 0 (HeaderTransformer None) ()
                 \<lparr>apiKey = None\<rparr>) = Inr out"
    using throws_only_when_debug_throws [of "HeaderTransformer None" ?H "sconst 0" 0 "()"
        "\<lparr>apiKey = None\<rparr>"]
    by (simp add: HeaderTransformer_def)
  have b: "\<exists>out. fst (transformRequestIn ?H (sconst 0) 0
                 (HeaderTransformer (Some (\<lambda>message. Returns))) () \<lparr>apiKey = Some []\<rparr>) = Inr out"
    using throws_only_when_debug_throws [of "HeaderTransformer (Some (\<lambda>message. Returns))" ?H
        "sconst 0" 0 "()" "\<lparr>apiKey = Some []\<rparr>"]
    by (simp add: HeaderTransformer_def)
  let ?lg = "\<lambda>message. if message = logMessage NaN None then Throws else Returns"
  have k: "keyIndex (snd (transformRequestIn ?H (sconst 0) 0 (HeaderTransformer (Some ?lg)) ()
                 \<lparr>apiKey = None\<rparr>)) = NaN"
    by (simp add: call_simps)
  have s: "currentApiKey (HeaderTransformer (Some ?lg)) \<lparr>apiKey = None\<rparr> = None"
    by (simp add: call_simps)
  have c: "fst (transformRequestIn ?H (sconst 0) 0 (HeaderTransformer (Some ?lg)) ()
                 \<lparr>apiKey = None\<rparr>) = Inl LoggerError"
    using throws_only_when_debug_throws [of "HeaderTransformer (Some ?lg)" ?H "sconst 0" 0 "()"
        "\<lparr>apiKey = None\<rparr>", THEN conjunct2, rule_format, of ?lg, THEN conjunct2, rule_format]
    by (simp add: k s logger_HeaderTransformer)
  from a b c show ?thesis
    by blast
qed

text \<open>Claim C7 as stated fails: the exception of a logger that throws reaches the caller.\<close>

theorem throwing_logger_propagates:
  "fst (transformRequestIn echo_crypto (sconst 0) 0
          (HeaderTransformer (Some (\<lambda>message. Throws))) () \<lparr>apiKey = Some (lit ''k1'')\<rparr>)
     = Inl LoggerError"
  by (simp add: call_simps)

section \<open>What a call leaves unchanged\<close>

text \<open>
  Claim C8, as amended. What a call returns holds the request, unchanged, as \<open>body\<close> and
  nothing else but \<open>config.headers\<close>. Of the transformer, the call leaves \<open>name\<close> and
  \<open>logger\<close> as they were; besides the cursor it writes the pool, when it finds the pool
  empty: the pool becomes what \<open>provider.apiKey\<close> parses to.
\<close>

theorem frame_of_call:
  "(\<forall>out. fst (transformRequestIn crypto rnd now t request p) = Inr out \<longrightarrow>
       out = \<lparr>body = request, config = \<lparr>headers = headers (config out)\<rparr>\<rparr>)
   \<and> name (snd (transformRequestIn crypto rnd now t request p)) = name t
   \<and> logger (snd (transformRequestIn crypto rnd now t request p)) = logger t
   \<and> apiKeys (snd (transformRequestIn crypto rnd now t request p)) =
       (if apiKeys t = [] then (case apiKey p of None \<Rightarrow> [] | Some s \<Rightarrow> parseApiKeys s)
        else apiKeys t)"
proof -
  let ?c = "\<lparr>call_request = request, call_provider = p, call_random = rnd, call_now = now\<rparr>"
  have st: "step crypto t ?c = transformRequestIn crypto rnd now t request p"
    by (simp add: step_def)
  have "out = \<lparr>body = request, config = \<lparr>headers = headers (config out)\<rparr>\<rparr>"
    if "fst (transformRequestIn crypto rnd now t request p) = Inr out" for out
    using fst_transformRequestIn [OF that] by simp
  then show ?thesis
    using name_step [of crypto t ?c] logger_step [of crypto t ?c]
      apiKeys_step [of crypto t ?c]
    by (simp add: st)
qed

theorem frame_of_call_witness:
  "(\<exists>out. fst (transformRequestIn echo_crypto (sconst 0) 0
        (HeaderTransformer None) (42::nat) \<lparr>apiKey = Some (lit ''k1'')\<rparr>) = Inr out \<and> body out = 42)
   \<and> name (snd (transformRequestIn echo_crypto (sconst 0) 0
        (HeaderTransformer None) (42::nat) \<lparr>apiKey = Some (lit ''k1'')\<rparr>)) = lit ''header''
   \<and> apiKeys (snd (transformRequestIn echo_crypto (sconst 0) 0
        (HeaderTransformer None) (42::nat) \<lparr>apiKey = Some (lit ''k1'')\<rparr>)) = [lit ''k1'']"
proof -
  let ?H = echo_crypto
  let ?r = "transformRequestIn ?H (sconst 0) 0 (HeaderTransformer None) (42::nat)
              \<lparr>apiKey = Some (lit ''k1'')\<rparr>"
  note T = frame_of_call [of ?H "sconst 0" 0 "HeaderTransformer None" "42::nat"
      "\<lparr>apiKey = Some (lit ''k1'')\<rparr>"]
  obtain out where out: "fst ?r = Inr out"
    using returns_without_logger [OF logger_HeaderTransformer, of ?H "sconst 0" 0 "42::nat"
        "\<lparr>apiKey = Some (lit ''k1'')\<rparr>"]
    by blast
  have "out = \<lparr>body = 42, config = \<lparr>headers = headers (config out)\<rparr>\<rparr>"
    using T [THEN conjunct1, rule_format, OF out] .
  then have "body out = 42"
    by (cases out) simp
  moreover have "name (snd ?r) = lit ''header''"
    using T by (simp add: HeaderTransformer_def)
  moreover have "apiKeys (snd ?r) = [lit ''k1'']"
    using T by (simp add: HeaderTransformer_def value_simps)
  ultimately show ?thesis
    using out by blast
qed

text \<open>Claim C8 as stated fails: the first call with a key writes the pool, not only the cursor.\<close>

theorem first_call_writes_pool:
  "apiKeys (HeaderTransformer None) = []
   \<and> apiKeys (snd (transformRequestIn echo_crypto (sconst 0) 0
        (HeaderTransformer None) () \<lparr>apiKey = Some (lit ''k1'')\<rparr>)) = [lit ''k1'']"
  by (simp add: call_simps value_simps)

section \<open>The first call without a key\<close>

text \<open>
  Claim C1. On a new transformer without logger, a call whose provider has no \<open>apiKey\<close>
  returns, with a null signature; the pool stays empty and no key is selected. The
  cursor does not stay 0: the remainder by the length 0 of the pool is \<open>NaN\<close>.
\<close>

theorem empty_pool_first_call:
  "transformRequestIn crypto rnd now (HeaderTransformer None) request \<lparr>apiKey = None\<rparr> =
     (Inr \<lparr>body = request,
           config = \<lparr>headers = \<lparr>user_agent = lit ''iFlow-Cli'',
                        session_id = generateSessionId rnd,
                        conversation_id = [],
                        x_iflow_timestamp = Number_toString 10 now,
                        x_iflow_signature = None\<rparr>\<rparr>\<rparr>,
      \<lparr>name = lit ''header'', keyIndex = NaN, apiKeys = [], logger = None\<rparr>)
   \<and> currentApiKey (HeaderTransformer lg) \<lparr>apiKey = None\<rparr> = None
   \<and> keyIndex (snd (transformRequestIn crypto rnd now (HeaderTransformer lg) request
         \<lparr>apiKey = None\<rparr>)) = NaN
   \<and> keyIndex (snd (transformRequestIn crypto rnd now (HeaderTransformer lg) request
         \<lparr>apiKey = None\<rparr>)) \<noteq> Fin 0"
proof -
  have "keyIndex (snd (transformRequestIn crypto rnd now (HeaderTransformer lg) request
          \<lparr>apiKey = None\<rparr>)) = NaN"
    by (simp add: snd_transformRequestIn initApiKeys_def advance_def HeaderTransformer_def)
  moreover have "currentApiKey (HeaderTransformer lg) \<lparr>apiKey = None\<rparr> = None"
    by (simp add: currentApiKey_def initApiKeys_def HeaderTransformer_def)
  ultimately show ?thesis
    by (simp add: call_simps generateSignature_def)
qed

end
